theory Spec2Isabelle
  imports Complex_Main "HOL-Library.AList" "HOL-Library.Sublist"
begin

section \<open>Tables of content posts\<close>

text \<open>
  The program keeps its data in a pandas DataFrame read from a CSV file. A cell of such a
  table is a missing value (\<open>NaN\<close>, which is also what pandas prints for \<open>NaT\<close> and
  \<open>None\<close>), a number, a string or a timestamp. Numbers are the counts of the data set
  (likes, comments, shares) and are modelled as integers; this agrees with the int64 and
  float64 columns of pandas as long as the values stay where those are exact (magnitudes
  below \<open>2^53\<close>). Timestamps only arise from parsing a day-month-year text, so they carry
  a calendar date (year, month, day) at midnight. Strings are ASCII.
\<close>

type_synonym date = "nat \<times> nat \<times> nat"

datatype cell = NaN | Num int | Str string | Ts date

datatype error = TypeError | KeyError

text \<open>
  A row is a dictionary from column names to cells, kept in column order, together with its
  index label. A frame has its column names and its rows. \<open>pd.read_csv\<close> yields a rectangular
  frame: every row has exactly the columns of the frame, and the names are distinct.
\<close>

type_synonym record_row = "(string \<times> cell) list"

record frame =
  columns :: "string list"
  rows :: "(nat \<times> record_row) list"

definition wf_frame :: "frame \<Rightarrow> bool" where
  "wf_frame df \<longleftrightarrow>
     distinct (columns df) \<and> list_all (\<lambda>r. map fst (snd r) = columns df) (rows df)"

definition getitem :: "record_row \<Rightarrow> string \<Rightarrow> cell" where
  "getitem r c = (case map_of r c of Some v \<Rightarrow> v | None \<Rightarrow> NaN)"

definition column :: "frame \<Rightarrow> string \<Rightarrow> cell list" where
  "column df c = map (\<lambda>r. getitem (snd r) c) (rows df)"

text \<open>
  \<open>df[c] = series\<close> where the series is computed element by element from the rows of the
  same frame: an existing column is replaced in place, a new one is appended as the last
  column. \<open>assign_try\<close> is the same for a computation that can raise: the first error
  aborts the whole assignment.
\<close>

definition setitem_columns :: "string \<Rightarrow> string list \<Rightarrow> string list" where
  "setitem_columns c cs = (if c \<in> set cs then cs else cs @ [c])"

definition assign :: "string \<Rightarrow> (record_row \<Rightarrow> cell) \<Rightarrow> frame \<Rightarrow> frame" where
  "assign c f df =
     df\<lparr>columns := setitem_columns c (columns df),
        rows := map (\<lambda>r. (fst r, AList.update c (f (snd r)) (snd r))) (rows df)\<rparr>"

fun try_rows ::
  "string \<Rightarrow> (record_row \<Rightarrow> error + cell) \<Rightarrow> (nat \<times> record_row) list
     \<Rightarrow> error + (nat \<times> record_row) list" where
  "try_rows c f [] = Inr []"
| "try_rows c f (r # rs) =
     (case f (snd r) of
        Inl e \<Rightarrow> Inl e
      | Inr v \<Rightarrow>
          (case try_rows c f rs of
             Inl e \<Rightarrow> Inl e
           | Inr rs' \<Rightarrow> Inr ((fst r, AList.update c v (snd r)) # rs')))"

definition assign_try ::
  "string \<Rightarrow> (record_row \<Rightarrow> error + cell) \<Rightarrow> frame \<Rightarrow> error + frame" where
  "assign_try c f df =
     (case try_rows c f (rows df) of
        Inl e \<Rightarrow> Inl e
      | Inr rs \<Rightarrow> Inr (df\<lparr>columns := setitem_columns c (columns df), rows := rs\<rparr>))"

section \<open>Strings: \<open>str\<close>, \<open>strip\<close> and \<open>title\<close>\<close>

definition isspace :: "char \<Rightarrow> bool" where
  "isspace c \<longleftrightarrow>
     (let n = (of_char c :: nat) in (9 \<le> n \<and> n \<le> 13) \<or> (28 \<le> n \<and> n \<le> 32))"

definition islower :: "char \<Rightarrow> bool" where
  "islower c \<longleftrightarrow> (97 \<le> (of_char c :: nat) \<and> (of_char c :: nat) \<le> 122)"

definition isupper :: "char \<Rightarrow> bool" where
  "isupper c \<longleftrightarrow> (65 \<le> (of_char c :: nat) \<and> (of_char c :: nat) \<le> 90)"

definition isdigit :: "char \<Rightarrow> bool" where
  "isdigit c \<longleftrightarrow> (48 \<le> (of_char c :: nat) \<and> (of_char c :: nat) \<le> 57)"

definition upper :: "char \<Rightarrow> char" where
  "upper c = (if islower c then char_of ((of_char c :: nat) - 32) else c)"

definition lower :: "char \<Rightarrow> char" where
  "lower c = (if isupper c then char_of ((of_char c :: nat) + 32) else c)"

text \<open>\<open>str.strip()\<close> without argument removes the leading and the trailing whitespace.\<close>

definition strip :: "string \<Rightarrow> string" where
  "strip s = rev (dropWhile isspace (rev (dropWhile isspace s)))"

text \<open>
  \<open>str.title()\<close>: a letter that follows a letter is lowered, a letter that follows anything
  else (or starts the string) is raised, every other character is kept and ends the word.
  The flag is CPython's \<open>previous_is_cased\<close>.
\<close>

fun title_from :: "bool \<Rightarrow> string \<Rightarrow> string" where
  "title_from prev [] = []"
| "title_from prev (c # cs) =
     (if islower c then (if prev then c else upper c) # title_from True cs
      else if isupper c then (if prev then lower c else c) # title_from True cs
      else c # title_from False cs)"

definition title :: "string \<Rightarrow> string" where
  "title s = title_from False s"

text \<open>Decimal text of a number, as \<open>str\<close> prints a Python integer.\<close>

fun digits :: "nat \<Rightarrow> string" where
  "digits n =
     (if n < 10 then [char_of (48 + n)]
      else digits (n div 10) @ [char_of (48 + n mod 10)])"

declare digits.simps [simp del]

definition str_int :: "int \<Rightarrow> string" where
  "str_int i = (if i < 0 then CHR ''-'' # digits (nat (- i)) else digits (nat i))"

definition zfill :: "nat \<Rightarrow> string \<Rightarrow> string" where
  "zfill w s = replicate (w - length s) CHR ''0'' @ s"

text \<open>
  \<open>Series.astype(str)\<close> calls \<open>str\<close> on every element: a missing value becomes the text
  \<open>nan\<close>, a string stays as it is. (A timestamp prints as its ISO date; the program never
  applies \<open>astype(str)\<close> to the parsed date column.)
\<close>

fun astype_str :: "cell \<Rightarrow> string" where
  "astype_str NaN = ''nan''"
| "astype_str (Num i) = str_int i"
| "astype_str (Str s) = s"
| "astype_str (Ts (y, m, d)) =
     zfill 4 (digits y) @ ''-'' @ zfill 2 (digits m) @ ''-'' @ zfill 2 (digits d)"

section \<open>Dates: \<open>pd.to_datetime(..., format="%d-%m-%Y", errors="coerce")\<close>\<close>

text \<open>
  The format is matched as the regular expression
  \<open>(3[0-1]|[1-2]\d|0[1-9]|[1-9]| [1-9])-(1[0-2]|0[1-9]|[1-9])-(\d\d\d\d)\<close> against the whole
  text. No alternative contains a dash, so the three fields are the pieces between the
  dashes.
\<close>

fun split_dash :: "string \<Rightarrow> string list" where
  "split_dash [] = [[]]"
| "split_dash (c # cs) =
     (if c = CHR ''-'' then [] # split_dash cs
      else (case split_dash cs of [] \<Rightarrow> [[c]] | p # ps \<Rightarrow> (c # p) # ps))"

definition digit_val :: "char \<Rightarrow> nat" where
  "digit_val c = (of_char c :: nat) - 48"

definition day_field :: "string \<Rightarrow> nat option" where
  "day_field s =
     (case s of
        [a] \<Rightarrow> if isdigit a \<and> a \<noteq> CHR ''0'' then Some (digit_val a) else None
      | [a, b] \<Rightarrow>
          if (a = CHR '' '' \<or> a = CHR ''0'') \<and> isdigit b \<and> b \<noteq> CHR ''0''
            then Some (digit_val b)
          else if (a = CHR ''1'' \<or> a = CHR ''2'') \<and> isdigit b
            then Some (10 * digit_val a + digit_val b)
          else if a = CHR ''3'' \<and> (b = CHR ''0'' \<or> b = CHR ''1'')
            then Some (30 + digit_val b)
          else None
      | _ \<Rightarrow> None)"

definition month_field :: "string \<Rightarrow> nat option" where
  "month_field s =
     (case s of
        [a] \<Rightarrow> if isdigit a \<and> a \<noteq> CHR ''0'' then Some (digit_val a) else None
      | [a, b] \<Rightarrow>
          if a = CHR ''0'' \<and> isdigit b \<and> b \<noteq> CHR ''0'' then Some (digit_val b)
          else if a = CHR ''1'' \<and> (b = CHR ''0'' \<or> b = CHR ''1'' \<or> b = CHR ''2'')
            then Some (10 + digit_val b)
          else None
      | _ \<Rightarrow> None)"

definition year_field :: "string \<Rightarrow> nat option" where
  "year_field s =
     (case s of
        [a, b, c, d] \<Rightarrow>
          if isdigit a \<and> isdigit b \<and> isdigit c \<and> isdigit d
            then Some (1000 * digit_val a + 100 * digit_val b + 10 * digit_val c + digit_val d)
          else None
      | _ \<Rightarrow> None)"

definition is_leap :: "nat \<Rightarrow> bool" where
  "is_leap y \<longleftrightarrow> y mod 4 = 0 \<and> (y mod 100 \<noteq> 0 \<or> y mod 400 = 0)"

definition days_in_month :: "nat \<Rightarrow> nat \<Rightarrow> nat" where
  "days_in_month y m =
     (if m = 2 then (if is_leap y then 29 else 28)
      else if m = 4 \<or> m = 6 \<or> m = 9 \<or> m = 11 then 30 else 31)"

definition date_le :: "date \<Rightarrow> date \<Rightarrow> bool" where
  "date_le a b \<longleftrightarrow>
     (fst a < fst b
      \<or> (fst a = fst b
         \<and> (fst (snd a) < fst (snd b)
            \<or> (fst (snd a) = fst (snd b) \<and> snd (snd a) \<le> snd (snd b)))))"

text \<open>
  A date that does not exist (31-02-2024) is a \<open>ValueError\<close>, and a midnight outside the
  nanosecond range of \<open>pd.Timestamp\<close> (1677-09-22 to 2262-04-11) is an
  \<open>OutOfBoundsDatetime\<close>; \<open>strptime\<close> returns \<open>None\<close> for every failure.
\<close>

definition strptime :: "string \<Rightarrow> date option" where
  "strptime s =
     (case split_dash s of
        [ds, ms, ys] \<Rightarrow>
          (case day_field ds of
             None \<Rightarrow> None
           | Some d \<Rightarrow>
               (case month_field ms of
                  None \<Rightarrow> None
                | Some m \<Rightarrow>
                    (case year_field ys of
                       None \<Rightarrow> None
                     | Some y \<Rightarrow>
                         if d \<le> days_in_month y m
                            \<and> date_le (1677, 9, 22) (y, m, d) \<and> date_le (y, m, d) (2262, 4, 11)
                         then Some (y, m, d) else None)))
      | _ \<Rightarrow> None)"

text \<open>
  With \<open>errors="coerce"\<close> every failure becomes the missing value. A missing value stays
  missing, a timestamp stays, and any other object is parsed from its \<open>str\<close>.
\<close>

fun to_datetime :: "cell \<Rightarrow> cell" where
  "to_datetime NaN = NaN"
| "to_datetime (Ts d) = Ts d"
| "to_datetime (Str s) = (case strptime s of Some d \<Rightarrow> Ts d | None \<Rightarrow> NaN)"
| "to_datetime (Num i) = (case strptime (str_int i) of Some d \<Rightarrow> Ts d | None \<Rightarrow> NaN)"

section \<open>The engagement score\<close>

text \<open>
  \<open>Series.fillna(0)\<close> returns a new series in which the missing values are 0. The
  arithmetic is Python's, element by element: numbers add and multiply, strings
  concatenate and repeat, everything else is a \<open>TypeError\<close>.
\<close>

fun fillna :: "int \<Rightarrow> cell \<Rightarrow> cell" where
  "fillna v NaN = Num v"
| "fillna v c = c"

fun cell_mul :: "cell \<Rightarrow> int \<Rightarrow> error + cell" where
  "cell_mul (Num a) k = Inr (Num (a * k))"
| "cell_mul NaN k = Inr NaN"
| "cell_mul (Str s) k = Inr (Str (concat (replicate (nat k) s)))"
| "cell_mul (Ts d) k = Inl TypeError"

fun cell_add :: "cell \<Rightarrow> cell \<Rightarrow> error + cell" where
  "cell_add (Num a) (Num b) = Inr (Num (a + b))"
| "cell_add (Num a) NaN = Inr NaN"
| "cell_add NaN (Num b) = Inr NaN"
| "cell_add NaN NaN = Inr NaN"
| "cell_add (Str s) (Str t) = Inr (Str (s @ t))"
| "cell_add a b = Inl TypeError"

definition engagement_score :: "record_row \<Rightarrow> error + cell" where
  "engagement_score r =
     (case cell_mul (fillna 0 (getitem r ''Comments'')) 2 of
        Inl e \<Rightarrow> Inl e
      | Inr c2 \<Rightarrow>
          (case cell_add (fillna 0 (getitem r ''Likes'')) c2 of
             Inl e \<Rightarrow> Inl e
           | Inr lc \<Rightarrow>
               (case cell_mul (fillna 0 (getitem r ''Shares'')) 3 of
                  Inl e \<Rightarrow> Inl e
                | Inr s3 \<Rightarrow> cell_add lc s3)))"

section \<open>Duplicates and the index\<close>

text \<open>
  \<open>drop_duplicates()\<close> keeps a row unless an earlier row has the same value in every
  column; the index labels play no part in the comparison and the kept rows keep theirs.
  \<open>reset_index(drop=True)\<close> then labels the rows 0, 1, 2, ...
\<close>

fun drop_seen :: "record_row list \<Rightarrow> (nat \<times> record_row) list \<Rightarrow> (nat \<times> record_row) list" where
  "drop_seen seen [] = []"
| "drop_seen seen (r # rs) =
     (if snd r \<in> set seen then drop_seen seen rs else r # drop_seen (snd r # seen) rs)"

definition drop_duplicates :: "frame \<Rightarrow> frame" where
  "drop_duplicates df = df\<lparr>rows := drop_seen [] (rows df)\<rparr>"

definition reset_index :: "frame \<Rightarrow> frame" where
  "reset_index df = df\<lparr>rows := zip [0 ..< length (rows df)] (map snd (rows df))\<rparr>"

section \<open>\<open>load_dataset\<close>\<close>

text \<open>
  The argument is the frame that \<open>pd.read_csv\<close> returned. Each step is guarded by the
  presence of its columns, in the order of the source.
\<close>

definition parse_date :: "frame \<Rightarrow> frame" where
  "parse_date df = assign ''Date'' (\<lambda>r. to_datetime (getitem r ''Date'')) df"

definition normalize_author :: "frame \<Rightarrow> frame" where
  "normalize_author df =
     assign ''Author_Type'' (\<lambda>r. Str (title (strip (astype_str (getitem r ''Author_Type''))))) df"

definition clean_columns :: "frame \<Rightarrow> error + frame" where
  "clean_columns df0 =
     (let df1 = (if ''Date'' \<in> set (columns df0) then parse_date df0 else df0);
          df2 = (if ''Author_Type'' \<in> set (columns df1) then normalize_author df1 else df1)
      in if set [''Likes'', ''Comments'', ''Shares''] \<subseteq> set (columns df2)
         then assign_try ''Engagement_Score'' engagement_score df2
         else Inr df2)"

definition load_dataset :: "frame \<Rightarrow> error + frame" where
  "load_dataset df0 =
     (case clean_columns df0 of
        Inl e \<Rightarrow> Inl e
      | Inr df \<Rightarrow> Inr (reset_index (drop_duplicates df)))"

text \<open>The report generator cleans its frame with the same statements.\<close>

definition load_and_analyze_data_clean :: "frame \<Rightarrow> error + frame" where
  "load_and_analyze_data_clean df0 =
     (let df1 = (if ''Date'' \<in> set (columns df0)
                 then assign ''Date'' (\<lambda>r. to_datetime (getitem r ''Date'')) df0 else df0);
          df2 = (if ''Author_Type'' \<in> set (columns df1)
                 then assign ''Author_Type''
                        (\<lambda>r. Str (title (strip (astype_str (getitem r ''Author_Type''))))) df1
                 else df1)
      in case (if set [''Likes'', ''Comments'', ''Shares''] \<subseteq> set (columns df2)
               then assign_try ''Engagement_Score'' engagement_score df2
               else Inr df2) of
           Inl e \<Rightarrow> Inl e
         | Inr df3 \<Rightarrow> Inr (reset_index (drop_duplicates df3)))"

section \<open>The dashboard's filters\<close>

text \<open>
  A comparison of the date column with a timestamp is false on a missing date and a
  \<open>TypeError\<close> on a column that holds anything but timestamps. \<open>loc_try\<close> is
  \<open>filtered.loc[mask]\<close> for such a mask, \<open>loc\<close> is the selection by a mask that cannot
  raise; both keep the selected rows with their labels, in order.
\<close>

fun between :: "date \<Rightarrow> date \<Rightarrow> cell \<Rightarrow> error + bool" where
  "between s e (Ts d) = Inr (date_le s d \<and> date_le d e)"
| "between s e NaN = Inr False"
| "between s e c = Inl TypeError"

fun loc_rows ::
  "(record_row \<Rightarrow> error + bool) \<Rightarrow> (nat \<times> record_row) list \<Rightarrow> error + (nat \<times> record_row) list"
  where
  "loc_rows m [] = Inr []"
| "loc_rows m (r # rs) =
     (case m (snd r) of
        Inl e \<Rightarrow> Inl e
      | Inr b \<Rightarrow>
          (case loc_rows m rs of
             Inl e \<Rightarrow> Inl e
           | Inr rs' \<Rightarrow> Inr (if b then r # rs' else rs')))"

definition loc_try :: "(record_row \<Rightarrow> error + bool) \<Rightarrow> frame \<Rightarrow> error + frame" where
  "loc_try m df =
     (case loc_rows m (rows df) of Inl e \<Rightarrow> Inl e | Inr rs \<Rightarrow> Inr (df\<lparr>rows := rs\<rparr>))"

definition loc :: "(record_row \<Rightarrow> bool) \<Rightarrow> frame \<Rightarrow> frame" where
  "loc m df = df\<lparr>rows := filter (\<lambda>r. m (snd r)) (rows df)\<rparr>"

definition isin :: "cell list \<Rightarrow> cell \<Rightarrow> bool" where
  "isin vs c \<longleftrightarrow> c \<in> set vs"

text \<open>
  The block \<open># Apply filters\<close> of \<open>main\<close>. \<open>None\<close> is an omitted date; a date and a
  non-empty list are true in a Python condition, \<open>None\<close> and the empty list are false.
\<close>

definition apply_filters ::
  "frame \<Rightarrow> date option \<Rightarrow> date option \<Rightarrow> cell list \<Rightarrow> cell list \<Rightarrow> error + frame" where
  "apply_filters df start_date end_date selected_author_types selected_content_types =
     (case (case (start_date, end_date) of
              (Some s, Some e) \<Rightarrow>
                if ''Date'' \<in> set (columns df)
                then loc_try (\<lambda>r. between s e (getitem r ''Date'')) df
                else Inr df
            | _ \<Rightarrow> Inr df) of
        Inl e \<Rightarrow> Inl e
      | Inr f1 \<Rightarrow>
          (let f2 = (if selected_author_types \<noteq> [] \<and> ''Author_Type'' \<in> set (columns f1)
                     then loc (\<lambda>r. isin selected_author_types (getitem r ''Author_Type'')) f1
                     else f1);
               f3 = (if selected_content_types \<noteq> [] \<and> ''Content_Type'' \<in> set (columns f2)
                     then loc (\<lambda>r. isin selected_content_types (getitem r ''Content_Type'')) f2
                     else f2)
           in Inr f3))"

section \<open>Grouping and reduction\<close>

text \<open>
  \<open>df.groupby(keys)[metric].mean()\<close> and \<open>.sum()\<close>. A row whose key has a missing value
  belongs to no group; the groups are the distinct keys that occur, in sorted order; missing
  metric values are skipped by the reduction, so the sum of none is 0 and the mean of none
  is missing (\<open>None\<close>). The result lists each group key with its reduced value. The program
  reduces numeric columns only; for any other column the model reports the \<open>TypeError\<close>
  that \<open>mean\<close> raises.
\<close>

datatype reduction = Mean | Sum

fun str_le :: "string \<Rightarrow> string \<Rightarrow> bool" where
  "str_le [] t = True"
| "str_le (a # s) [] = False"
| "str_le (a # s) (b # t) =
     ((of_char a :: nat) < of_char b \<or> ((of_char a :: nat) = of_char b \<and> str_le s t))"

fun rank :: "cell \<Rightarrow> nat" where
  "rank (Num a) = 0"
| "rank (Str s) = 1"
| "rank (Ts d) = 2"
| "rank NaN = 3"

fun cell_le :: "cell \<Rightarrow> cell \<Rightarrow> bool" where
  "cell_le (Num a) (Num b) = (a \<le> b)"
| "cell_le (Str s) (Str t) = str_le s t"
| "cell_le (Ts a) (Ts b) = date_le a b"
| "cell_le a b = (rank a \<le> rank b)"

fun key_le :: "cell list \<Rightarrow> cell list \<Rightarrow> bool" where
  "key_le [] l = True"
| "key_le (a # k) [] = False"
| "key_le (a # k) (b # l) = (if a = b then key_le k l else cell_le a b)"

fun insert_key :: "cell list \<Rightarrow> cell list list \<Rightarrow> cell list list" where
  "insert_key k [] = [k]"
| "insert_key k (l # ls) = (if key_le k l then k # l # ls else l # insert_key k ls)"

definition sort_keys :: "cell list list \<Rightarrow> cell list list" where
  "sort_keys ks = foldr insert_key ks []"

definition group_key :: "string list \<Rightarrow> record_row \<Rightarrow> cell list" where
  "group_key keys r = map (getitem r) keys"

definition group_keys :: "frame \<Rightarrow> string list \<Rightarrow> cell list list" where
  "group_keys df keys =
     sort_keys (remdups (filter (\<lambda>k. NaN \<notin> set k) (map (\<lambda>r. group_key keys (snd r)) (rows df))))"

fun is_numeric :: "cell \<Rightarrow> bool" where
  "is_numeric NaN = True"
| "is_numeric (Num a) = True"
| "is_numeric c = False"

fun numbers :: "cell list \<Rightarrow> int list" where
  "numbers [] = []"
| "numbers (Num a # cs) = a # numbers cs"
| "numbers (c # cs) = numbers cs"

fun reduce :: "reduction \<Rightarrow> int list \<Rightarrow> rat option" where
  "reduce Sum vs = Some (of_int (sum_list vs))"
| "reduce Mean vs = (if vs = [] then None else Some (of_int (sum_list vs) / of_int (int (length vs))))"

definition group_values :: "frame \<Rightarrow> string list \<Rightarrow> string \<Rightarrow> cell list \<Rightarrow> cell list" where
  "group_values df keys metric k =
     map (\<lambda>r. getitem (snd r) metric) (filter (\<lambda>r. group_key keys (snd r) = k) (rows df))"

definition groupby_agg ::
  "frame \<Rightarrow> string list \<Rightarrow> string \<Rightarrow> reduction \<Rightarrow> error + (cell list \<times> rat option) list" where
  "groupby_agg df keys metric fn =
     (if \<not> set (metric # keys) \<subseteq> set (columns df) then Inl KeyError
      else if \<not> list_all is_numeric (column df metric) then Inl TypeError
      else Inr (map (\<lambda>k. (k, reduce fn (numbers (group_values df keys metric k))))
                  (group_keys df keys)))"

section \<open>The cleaning steps, row by row\<close>

text \<open>
  The three column assignments of \<open>load_dataset\<close> act on each row separately. These
  functions describe what they do to one row, given the column names of the input frame;
  the lemma \<open>clean_columns_rows\<close> below shows that this is what \<open>clean_columns\<close> computes.
\<close>

definition pre_row :: "string list \<Rightarrow> record_row \<Rightarrow> record_row" where
  "pre_row cs r =
     (let r1 = (if ''Date'' \<in> set cs
                then AList.update ''Date'' (to_datetime (getitem r ''Date'')) r else r)
      in if ''Author_Type'' \<in> set cs
         then AList.update ''Author_Type''
                (Str (title (strip (astype_str (getitem r1 ''Author_Type''))))) r1
         else r1)"

definition clean_row :: "string list \<Rightarrow> record_row \<Rightarrow> record_row" where
  "clean_row cs r =
     (if set [''Likes'', ''Comments'', ''Shares''] \<subseteq> set cs
      then (case engagement_score (pre_row cs r) of
              Inr v \<Rightarrow> AList.update ''Engagement_Score'' v (pre_row cs r)
            | Inl e \<Rightarrow> pre_row cs r)
      else pre_row cs r)"

definition pre_frame :: "frame \<Rightarrow> frame" where
  "pre_frame df = df\<lparr>rows := map (\<lambda>r. (fst r, pre_row (columns df) (snd r))) (rows df)\<rparr>"

text \<open>Letters, for the description of \<open>title\<close>.\<close>

definition isalpha :: "char \<Rightarrow> bool" where
  "isalpha c \<longleftrightarrow> islower c \<or> isupper c"


text \<open>
  The three conditional statements of the filter block, one at a time; the lemma
  \<open>apply_filters_stages\<close> below shows that \<open>apply_filters\<close> is their composition.
\<close>
definition date_stage :: "frame \<Rightarrow> date option \<Rightarrow> date option \<Rightarrow> error + frame" where
  "date_stage df start_date end_date =
     (case (start_date, end_date) of
        (Some s, Some e) \<Rightarrow>
          if ''Date'' \<in> set (columns df)
          then loc_try (\<lambda>r. between s e (getitem r ''Date'')) df
          else Inr df
      | _ \<Rightarrow> Inr df)"

definition select_stage :: "string \<Rightarrow> cell list \<Rightarrow> frame \<Rightarrow> frame" where
  "select_stage c selected f =
     (if selected \<noteq> [] \<and> c \<in> set (columns f)
      then loc (\<lambda>r. isin selected (getitem r c)) f else f)"

section \<open>An example table\<close>

text \<open>
  Four posts as read from a file: the second repeats the first, the third has a date in
  another format and no comment count, the fourth has no author type.
\<close>

definition posts :: frame where
  "posts =
     \<lparr>columns = [''Date'', ''Author_Type'', ''Content_Type'', ''Likes'', ''Comments'', ''Shares''],
      rows =
        [(0, [(''Date'', Str ''01-02-2023''), (''Author_Type'', Str ''ai ''),
              (''Content_Type'', Str ''Blog''), (''Likes'', Num 10), (''Comments'', Num 2),
              (''Shares'', Num 1)]),
         (1, [(''Date'', Str ''01-02-2023''), (''Author_Type'', Str ''ai ''),
              (''Content_Type'', Str ''Blog''), (''Likes'', Num 10), (''Comments'', Num 2),
              (''Shares'', Num 1)]),
         (2, [(''Date'', Str ''2023-02-07''), (''Author_Type'', Str ''Human''),
              (''Content_Type'', Str ''Video''), (''Likes'', Num 5), (''Comments'', NaN),
              (''Shares'', Num 0)]),
         (3, [(''Date'', Str ''15-03-2023''), (''Author_Type'', NaN),
              (''Content_Type'', Str ''Blog''), (''Likes'', Num 1), (''Comments'', Num 0),
              (''Shares'', Num 0)])]\<rparr>"

definition posts_clean :: frame where
  "posts_clean =
     \<lparr>columns = [''Date'', ''Author_Type'', ''Content_Type'', ''Likes'', ''Comments'', ''Shares'',
                 ''Engagement_Score''],
      rows =
        [(0, [(''Date'', Ts (2023, 2, 1)), (''Author_Type'', Str ''Ai''),
              (''Content_Type'', Str ''Blog''), (''Likes'', Num 10), (''Comments'', Num 2),
              (''Shares'', Num 1), (''Engagement_Score'', Num 17)]),
         (1, [(''Date'', NaN), (''Author_Type'', Str ''Human''),
              (''Content_Type'', Str ''Video''), (''Likes'', Num 5), (''Comments'', NaN),
              (''Shares'', Num 0), (''Engagement_Score'', Num 5)]),
         (2, [(''Date'', Ts (2023, 3, 15)), (''Author_Type'', Str ''Nan''),
              (''Content_Type'', Str ''Blog''), (''Likes'', Num 1), (''Comments'', Num 0),
              (''Shares'', Num 0), (''Engagement_Score'', Num 1)])]\<rparr>"

text \<open>
  Three posts that differ only in how the author type is written; the first two are equal.
\<close>

definition dup_posts :: frame where
  "dup_posts =
     \<lparr>columns = [''Author_Type'', ''Likes'', ''Comments'', ''Shares''],
      rows =
        [(0, [(''Author_Type'', Str ''ai ''), (''Likes'', Num 10), (''Comments'', Num 2),
              (''Shares'', Num 1)]),
         (1, [(''Author_Type'', Str ''ai ''), (''Likes'', Num 10), (''Comments'', Num 2),
              (''Shares'', Num 1)]),
         (2, [(''Author_Type'', Str ''AI''), (''Likes'', Num 10), (''Comments'', Num 2),
              (''Shares'', Num 1)])]\<rparr>"

definition dup_posts_clean :: frame where
  "dup_posts_clean =
     \<lparr>columns = [''Author_Type'', ''Likes'', ''Comments'', ''Shares'', ''Engagement_Score''],
      rows =
        [(0, [(''Author_Type'', Str ''Ai''), (''Likes'', Num 10), (''Comments'', Num 2),
              (''Shares'', Num 1), (''Engagement_Score'', Num 17)])]\<rparr>"

text \<open>
  A table with neither dates, author types, comments nor shares.
\<close>
definition bare_posts :: frame where
  "bare_posts =
     \<lparr>columns = [''Content_Type'', ''Likes''],
      rows =
        [(0, [(''Content_Type'', Str ''Blog''), (''Likes'', Num 3)]),
         (1, [(''Content_Type'', Str ''Blog''), (''Likes'', Num 3)]),
         (2, [(''Content_Type'', Str ''Video''), (''Likes'', NaN)])]\<rparr>"

definition bare_posts_clean :: frame where
  "bare_posts_clean =
     \<lparr>columns = [''Content_Type'', ''Likes''],
      rows =
        [(0, [(''Content_Type'', Str ''Blog''), (''Likes'', Num 3)]),
         (1, [(''Content_Type'', Str ''Video''), (''Likes'', NaN)])]\<rparr>"

text \<open>
  The cleaned example restricted to the content type Video, and to the dates from
  1 January to 1 February 2023.
\<close>
definition human_posts :: frame where
  "human_posts =
     \<lparr>columns = [''Date'', ''Author_Type'', ''Content_Type'', ''Likes'', ''Comments'', ''Shares'',
                 ''Engagement_Score''],
      rows =
        [(1, [(''Date'', NaN), (''Author_Type'', Str ''Human''),
              (''Content_Type'', Str ''Video''), (''Likes'', Num 5), (''Comments'', NaN),
              (''Shares'', Num 0), (''Engagement_Score'', Num 5)])]\<rparr>"

definition february_posts :: frame where
  "february_posts =
     \<lparr>columns = [''Date'', ''Author_Type'', ''Content_Type'', ''Likes'', ''Comments'', ''Shares'',
                 ''Engagement_Score''],
      rows =
        [(0, [(''Date'', Ts (2023, 2, 1)), (''Author_Type'', Str ''Ai''),
              (''Content_Type'', Str ''Blog''), (''Likes'', Num 10), (''Comments'', Num 2),
              (''Shares'', Num 1), (''Engagement_Score'', Num 17)])]\<rparr>"

section \<open>Basic facts\<close>

lemma getitem_update:
  "getitem (AList.update c v r) c' = (if c' = c then v else getitem r c')"
  by (simp add: getitem_def update_conv')

lemma setitem_columns_mem: "c \<in> set cs \<Longrightarrow> setitem_columns c cs = cs"
  by (simp add: setitem_columns_def)

lemma set_setitem_columns: "set (setitem_columns c cs) = insert c (set cs)"
  by (auto simp: setitem_columns_def)

lemma columns_assign: "columns (assign c f df) = setitem_columns c (columns df)"
  by (simp add: assign_def)

lemma rows_assign:
  "rows (assign c f df) = map (\<lambda>r. (fst r, AList.update c (f (snd r)) (snd r))) (rows df)"
  by (simp add: assign_def)

lemma try_rows_Inr:
  "try_rows c f rs = Inr rs' \<Longrightarrow>
     rs' = map (\<lambda>r. (fst r, AList.update c (projr (f (snd r))) (snd r))) rs
     \<and> (\<forall>r \<in> set rs. \<exists>v. f (snd r) = Inr v)"
  by (induction rs arbitrary: rs') (auto split: sum.splits)

lemma try_rows_total:
  "\<forall>r \<in> set rs. \<exists>v. f (snd r) = Inr v \<Longrightarrow> \<exists>rs'. try_rows c f rs = Inr rs'"
  by (induction rs) (auto split: sum.splits)

lemma try_rows_Inl:
  "try_rows c f rs = Inl e \<Longrightarrow> \<exists>r \<in> set rs. f (snd r) = Inl e"
  by (induction rs) (auto split: sum.splits)

lemma set_drop_seen:
  "set (map snd (drop_seen seen rs)) = set (map snd rs) - set seen"
  by (induction rs arbitrary: seen) auto

lemma distinct_drop_seen: "distinct (map snd (drop_seen seen rs))"
  by (induction rs arbitrary: seen) (auto simp: set_drop_seen simp del: set_map)

lemma subseq_drop_seen: "subseq (drop_seen seen rs) rs"
  by (induction rs arbitrary: seen) auto

lemma remdups_snoc: "remdups (ys @ [x]) = filter (\<lambda>y. y \<noteq> x) (remdups ys) @ [x]"
  by (induction ys) auto

lemma first_seen_Cons:
  "rev (remdups (rev (x # xs))) = x # filter (\<lambda>y. y \<noteq> x) (rev (remdups (rev xs)))"
  by (simp add: remdups_snoc rev_filter)

lemma drop_seen_first_seen:
  "map snd (drop_seen seen rs) =
     filter (\<lambda>x. x \<notin> set seen) (rev (remdups (rev (map snd rs))))"
proof (induction rs arbitrary: seen)
  case Nil
  then show ?case by simp
next
  case (Cons r rs)
  have "rev (remdups (rev (map snd (r # rs)))) =
          snd r # filter (\<lambda>y. y \<noteq> snd r) (rev (remdups (rev (map snd rs))))"
    using first_seen_Cons [of "snd r" "map snd rs"] by simp
  then show ?case
    using Cons.IH [of seen] Cons.IH [of "snd r # seen"]
    by (auto intro!: filter_cong)
qed

lemma find_drop_seen:
  "r \<in> set (drop_seen seen rs) \<Longrightarrow> find (\<lambda>r'. snd r' = snd r) rs = Some r"
proof (induction rs arbitrary: seen)
  case Nil
  then show ?case by simp
next
  case (Cons a rs)
  show ?case
  proof (cases "snd a \<in> set seen")
    case True
    with Cons.prems have m: "r \<in> set (drop_seen seen rs)" by simp
    then have "snd r \<in> set (map snd (drop_seen seen rs))" by force
    then have "snd r \<notin> set seen" unfolding set_drop_seen by simp
    with True have "snd a \<noteq> snd r" by auto
    with Cons.IH [OF m] show ?thesis by simp
  next
    case False
    with Cons.prems have "r = a \<or> r \<in> set (drop_seen (snd a # seen) rs)" by simp
    then show ?thesis
    proof
      assume "r = a" then show ?thesis by simp
    next
      assume m: "r \<in> set (drop_seen (snd a # seen) rs)"
      then have "snd r \<in> set (map snd (drop_seen (snd a # seen) rs))" by force
      then have "snd r \<noteq> snd a" unfolding set_drop_seen by simp
      with Cons.IH [OF m] show ?thesis by auto
    qed
  qed
qed

lemma rows_reset_index:
  "map fst (rows (reset_index df)) = [0 ..< length (rows df)]"
  "map snd (rows (reset_index df)) = map snd (rows df)"
  "columns (reset_index df) = columns df"
  by (simp_all add: reset_index_def)

lemma try_rows_map:
  "try_rows c f rs = Inr rs' \<Longrightarrow>
     rs' = map (\<lambda>r. (fst r, case f (snd r) of Inr v \<Rightarrow> AList.update c v (snd r) | Inl e \<Rightarrow> snd r)) rs"
  by (induction rs arbitrary: rs') (auto split: sum.splits)

lemma try_rows_ok:
  "try_rows c f rs = Inr rs' \<Longrightarrow> r \<in> set rs \<Longrightarrow> \<exists>v. f (snd r) = Inr v"
  by (induction rs arbitrary: rs') (auto split: sum.splits)

lemma engagement_score_update:
  "c \<noteq> ''Likes'' \<Longrightarrow> c \<noteq> ''Comments'' \<Longrightarrow> c \<noteq> ''Shares'' \<Longrightarrow>
     engagement_score (AList.update c v r) = engagement_score r"
  by (simp add: engagement_score_def getitem_update cong: sum.case_cong)

lemma clean_columns_unfold:
  "clean_columns df =
     (if set [''Likes'', ''Comments'', ''Shares''] \<subseteq> set (columns df)
      then assign_try ''Engagement_Score'' engagement_score (pre_frame df)
      else Inr (pre_frame df))"
proof -
  let ?df1 = "if ''Date'' \<in> set (columns df) then parse_date df else df"
  let ?df2 = "if ''Author_Type'' \<in> set (columns ?df1) then normalize_author ?df1 else ?df1"
  have "?df2 = pre_frame df"
    by (simp add: parse_date_def normalize_author_def assign_def
        setitem_columns_mem pre_row_def pre_frame_def Let_def o_def)
  moreover have "columns (pre_frame df) = columns df"
    by (simp add: pre_frame_def)
  ultimately show ?thesis
    by (simp add: clean_columns_def Let_def)
qed

lemma clean_columns_rows:
  assumes "clean_columns df = Inr df3"
  shows "rows df3 = map (\<lambda>r. (fst r, clean_row (columns df) (snd r))) (rows df)"
proof (cases "set [''Likes'', ''Comments'', ''Shares''] \<subseteq> set (columns df)")
  case True
  with assms obtain rs
    where t: "try_rows ''Engagement_Score'' engagement_score (rows (pre_frame df)) = Inr rs"
      and d: "rows df3 = rs"
    by (auto simp: clean_columns_unfold assign_try_def split: sum.splits)
  from try_rows_map [OF t] d True show ?thesis
    by (simp add: pre_frame_def clean_row_def o_def cong: sum.case_cong)
next
  case False
  with assms show ?thesis
    by (auto simp: clean_columns_unfold pre_frame_def clean_row_def)
qed

lemma clean_columns_ok:
  assumes "clean_columns df = Inr df3"
    and "set [''Likes'', ''Comments'', ''Shares''] \<subseteq> set (columns df)"
    and "r \<in> set (rows df)"
  shows "\<exists>v. engagement_score (pre_row (columns df) (snd r)) = Inr v"
proof -
  from assms(1,2) obtain rs
    where t: "try_rows ''Engagement_Score'' engagement_score (rows (pre_frame df)) = Inr rs"
    by (auto simp: clean_columns_unfold assign_try_def split: sum.splits)
  have "(fst r, pre_row (columns df) (snd r)) \<in> set (rows (pre_frame df))"
    using assms(3) by (force simp: pre_frame_def)
  from try_rows_ok [OF t this] show ?thesis by simp
qed

lemma clean_columns_columns:
  assumes "clean_columns df = Inr df3"
  shows "columns df3 =
           (if set [''Likes'', ''Comments'', ''Shares''] \<subseteq> set (columns df)
            then setitem_columns ''Engagement_Score'' (columns df) else columns df)"
  using assms
  by (auto simp: clean_columns_unfold assign_try_def pre_frame_def split: sum.splits if_splits)

lemma clean_columns_total:
  assumes "\<not> set [''Likes'', ''Comments'', ''Shares''] \<subseteq> set (columns df)
           \<or> (\<forall>r \<in> set (rows df). \<exists>v. engagement_score (pre_row (columns df) (snd r)) = Inr v)"
  shows "\<exists>df3. clean_columns df = Inr df3"
proof (cases "set [''Likes'', ''Comments'', ''Shares''] \<subseteq> set (columns df)")
  case True
  with assms have "\<forall>r \<in> set (rows (pre_frame df)). \<exists>v. engagement_score (snd r) = Inr v"
    by (auto simp: pre_frame_def)
  from try_rows_total [OF this, of "''Engagement_Score''"]
  obtain rs where "try_rows ''Engagement_Score'' engagement_score (rows (pre_frame df)) = Inr rs" ..
  with True show ?thesis
    by (simp add: clean_columns_unfold assign_try_def)
next
  case False
  then show ?thesis by (auto simp: clean_columns_unfold)
qed

lemma getitem_pre_row_other:
  "c \<noteq> ''Date'' \<Longrightarrow> c \<noteq> ''Author_Type'' \<Longrightarrow> getitem (pre_row cs r) c = getitem r c"
  by (simp add: pre_row_def Let_def getitem_update)

lemma getitem_pre_row_Date:
  "''Date'' \<in> set cs \<Longrightarrow> getitem (pre_row cs r) ''Date'' = to_datetime (getitem r ''Date'')"
  by (simp add: pre_row_def Let_def getitem_update)

lemma getitem_pre_row_Author:
  "''Author_Type'' \<in> set cs \<Longrightarrow>
     getitem (pre_row cs r) ''Author_Type'' = Str (title (strip (astype_str (getitem r ''Author_Type''))))"
  by (simp add: pre_row_def Let_def getitem_update)

lemma getitem_clean_row_other:
  "c \<noteq> ''Engagement_Score'' \<Longrightarrow> getitem (clean_row cs r) c = getitem (pre_row cs r) c"
  by (simp add: clean_row_def getitem_update split: sum.splits)


lemma engagement_score_cong:
  "getitem r ''Likes'' = getitem r' ''Likes'' \<Longrightarrow>
   getitem r ''Comments'' = getitem r' ''Comments'' \<Longrightarrow>
   getitem r ''Shares'' = getitem r' ''Shares'' \<Longrightarrow>
   engagement_score r = engagement_score r'"
  by (simp add: engagement_score_def cong: sum.case_cong)


lemma load_dataset_rows:
  assumes "load_dataset df = Inr out"
  obtains df3 where "clean_columns df = Inr df3"
    and "columns out = columns df3"
    and "map snd (rows out) = map snd (drop_seen [] (rows df3))"
    and "map fst (rows out) = [0 ..< length (rows out)]"
proof -
  from assms obtain df3 where c: "clean_columns df = Inr df3"
    and o: "out = reset_index (drop_duplicates df3)"
    by (auto simp: load_dataset_def split: sum.splits)
  show thesis
    by (rule that [OF c]) (simp_all add: o reset_index_def drop_duplicates_def)
qed

lemma load_dataset_row_source:
  assumes "load_dataset df = Inr out" and "r \<in> set (rows out)"
  shows "\<exists>r0 \<in> set (rows df). snd r = clean_row (columns df) (snd r0)"
proof -
  from assms(1) obtain df3 where c: "clean_columns df = Inr df3"
    and m: "map snd (rows out) = map snd (drop_seen [] (rows df3))"
    by (rule load_dataset_rows)
  from assms(2) have "snd r \<in> set (map snd (rows out))" by force
  then have "snd r \<in> set (map snd (rows df3))"
    unfolding m set_drop_seen by simp
  then show ?thesis
    unfolding clean_columns_rows [OF c] by auto
qed

lemma load_dataset_row_kept:
  assumes "load_dataset df = Inr out" and "r0 \<in> set (rows df)"
  shows "\<exists>r \<in> set (rows out). snd r = clean_row (columns df) (snd r0)"
proof -
  from assms(1) obtain df3 where c: "clean_columns df = Inr df3"
    and m: "map snd (rows out) = map snd (drop_seen [] (rows df3))"
    by (rule load_dataset_rows)
  from assms(2) have "clean_row (columns df) (snd r0) \<in> set (map snd (rows df3))"
    unfolding clean_columns_rows [OF c] by force
  then have "clean_row (columns df) (snd r0) \<in> set (map snd (rows out))"
    unfolding m set_drop_seen by simp
  then show ?thesis by force
qed

lemma load_dataset_posts: "load_dataset posts = Inr posts_clean"
  by code_simp

lemma map_of_pre_row_other:
  "c \<noteq> ''Date'' \<Longrightarrow> c \<noteq> ''Author_Type'' \<Longrightarrow> map_of (pre_row cs r) c = map_of r c"
  by (simp add: pre_row_def Let_def update_conv')

lemma map_of_clean_row_other:
  "c \<noteq> ''Engagement_Score'' \<Longrightarrow> map_of (clean_row cs r) c = map_of (pre_row cs r) c"
  by (simp add: clean_row_def update_conv' split: sum.splits)

lemma clean_row_no_score:
  "\<not> set [''Likes'', ''Comments'', ''Shares''] \<subseteq> set cs \<Longrightarrow> clean_row cs r = pre_row cs r"
  by (auto simp: clean_row_def)

lemma load_dataset_columns:
  assumes "load_dataset df = Inr out"
  shows "columns out =
           (if set [''Likes'', ''Comments'', ''Shares''] \<subseteq> set (columns df)
            then setitem_columns ''Engagement_Score'' (columns df) else columns df)"
proof -
  from assms obtain df3 where c: "clean_columns df = Inr df3" and "columns out = columns df3"
    by (rule load_dataset_rows)
  with clean_columns_columns [OF c] show ?thesis by simp
qed


lemma clean_columns_values:
  assumes "clean_columns df = Inr df3"
  shows "map snd (rows df3) = map (clean_row (columns df)) (map snd (rows df))"
  by (simp add: clean_columns_rows [OF assms] o_def)

lemma first_seen_drop_seen:
  "map snd (drop_seen [] rs) = rev (remdups (rev (map snd rs)))"
  by (simp add: drop_seen_first_seen)

lemma load_dataset_dup_posts: "load_dataset dup_posts = Inr dup_posts_clean"
  by code_simp

lemma try_rows_column:
  assumes "try_rows c f rs = Inr rs'" and "c' \<noteq> c"
  shows "map (\<lambda>r. getitem (snd r) c') rs' = map (\<lambda>r. getitem (snd r) c') rs"
  using assms by (induction rs arbitrary: rs') (auto simp: getitem_update split: sum.splits)

lemma clean_columns_column:
  assumes "clean_columns df = Inr df3"
    and "c \<noteq> ''Date''" and "c \<noteq> ''Author_Type''" and "c \<noteq> ''Engagement_Score''"
  shows "column df3 c = column df c"
  using assms(2-4)
  by (simp add: column_def clean_columns_rows [OF assms(1)] o_def
      getitem_clean_row_other getitem_pre_row_other)

lemma load_dataset_subseq:
  assumes "load_dataset df = Inr out" and "clean_columns df = Inr df3"
  shows "subseq (column out c) (column df3 c)"
proof -
  from assms(1) obtain df3' where "clean_columns df = Inr df3'"
    and "map snd (rows out) = map snd (drop_seen [] (rows df3'))"
    by (rule load_dataset_rows)
  with assms(2) have m: "map snd (rows out) = map snd (drop_seen [] (rows df3))" by simp
  have "column out c = map (\<lambda>r. getitem r c) (map snd (rows out))"
    by (simp add: column_def o_def)
  moreover have "column df3 c = map (\<lambda>r. getitem r c) (map snd (rows df3))"
    by (simp add: column_def o_def)
  moreover have "subseq (map snd (drop_seen [] (rows df3))) (map snd (rows df3))"
    by (intro subseq_map subseq_drop_seen)
  ultimately show ?thesis unfolding m by (simp only: subseq_map)
qed

lemma rev_dropWhile_split:
  "xs = rev (dropWhile P (rev xs)) @ rev (takeWhile P (rev xs))"
proof -
  have "rev (takeWhile P (rev xs) @ dropWhile P (rev xs)) = xs"
    by (simp only: takeWhile_dropWhile_id rev_rev_ident)
  then show ?thesis by (simp only: rev_append)
qed

lemma strip_decomp:
  "\<exists>a b. s = a @ strip s @ b \<and> list_all isspace a \<and> list_all isspace b"
proof -
  let ?t = "dropWhile isspace s"
  let ?a = "takeWhile isspace s"
  let ?b = "rev (takeWhile isspace (rev ?t))"
  have t: "?t = strip s @ ?b"
    unfolding strip_def by (rule rev_dropWhile_split)
  have "s = ?a @ ?t" by simp
  with t have "s = ?a @ strip s @ ?b" by simp
  moreover have "list_all isspace ?a"
    by (auto simp: list_all_iff dest: set_takeWhileD)
  moreover have "list_all isspace ?b"
    by (auto simp: list_all_iff dest: set_takeWhileD)
  ultimately show ?thesis by blast
qed

lemma strip_ends:
  assumes "strip s \<noteq> []"
  shows "\<not> isspace (hd (strip s)) \<and> \<not> isspace (last (strip s))"
proof -
  let ?t = "dropWhile isspace s"
  from assms have n: "dropWhile isspace (rev ?t) \<noteq> []" by (simp add: strip_def)
  then have "\<not> isspace (hd (dropWhile isspace (rev ?t)))" by (rule hd_dropWhile)
  with n have l: "\<not> isspace (last (strip s))" by (simp add: strip_def last_rev)
  have t: "?t = strip s @ rev (takeWhile isspace (rev ?t))"
    unfolding strip_def by (rule rev_dropWhile_split)
  have "?t \<noteq> []"
  proof
    assume "?t = []"
    with t have "strip s @ rev (takeWhile isspace (rev ?t)) = []" by (simp only:)
    with assms show False by simp
  qed
  then have "\<not> isspace (hd ?t)" by (rule hd_dropWhile)
  moreover from t assms have "hd ?t = hd (strip s)" by (metis hd_append2)
  ultimately show ?thesis using l by simp
qed

lemma lower_islower: "islower c \<Longrightarrow> lower c = c"
  by (simp add: lower_def islower_def isupper_def)

lemma upper_isupper: "isupper c \<Longrightarrow> upper c = c"
  by (simp add: upper_def islower_def isupper_def)

lemma length_title_from: "length (title_from prev s) = length s"
  by (induction s arbitrary: prev) auto

lemma title_from_nth:
  "i < length s \<Longrightarrow>
     title_from prev s ! i =
       (if isalpha (s ! i)
        then (if (if i = 0 then prev else isalpha (s ! (i - 1))) then lower (s ! i)
              else upper (s ! i))
        else s ! i)"
proof (induction s arbitrary: prev i)
  case Nil
  then show ?case by simp
next
  case (Cons c cs)
  show ?case
  proof (cases i)
    case 0
    then show ?thesis
      by (auto simp: isalpha_def lower_islower upper_isupper)
  next
    case (Suc j)
    with Cons.prems have j: "j < length cs" by simp
    show ?thesis
    proof (cases j)
      case 0
      with Suc j Cons.IH [OF j] show ?thesis by (auto simp: isalpha_def)
    next
      case (Suc k)
      with \<open>i = Suc j\<close> j Cons.IH [OF j] show ?thesis by (auto simp: isalpha_def)
    qed
  qed
qed

lemma title_nth:
  "i < length s \<Longrightarrow>
     title s ! i =
       (if isalpha (s ! i)
        then (if 0 < i \<and> isalpha (s ! (i - 1)) then lower (s ! i) else upper (s ! i))
        else s ! i)"
  by (simp add: title_def title_from_nth)

lemma title_strip_ai: "title (strip ''ai '') = ''Ai''"
  by code_simp

lemma clean_columns_author:
  assumes "clean_columns df = Inr df3" and "''Author_Type'' \<in> set (columns df)"
  shows "column df3 ''Author_Type'' =
           map (\<lambda>v. Str (title (strip (astype_str v)))) (column df ''Author_Type'')"
  using assms(2)
  by (simp add: column_def clean_columns_rows [OF assms(1)] o_def
      getitem_clean_row_other getitem_pre_row_Author)


lemma getitem_clean_row_Author:
  "''Author_Type'' \<in> set cs \<Longrightarrow>
     getitem (clean_row cs r) ''Author_Type'' =
       Str (title (strip (astype_str (getitem r ''Author_Type''))))"
  by (simp add: getitem_clean_row_other getitem_pre_row_Author)

lemma getitem_clean_row_Date:
  "''Date'' \<in> set cs \<Longrightarrow>
     getitem (clean_row cs r) ''Date'' = to_datetime (getitem r ''Date'')"
  by (simp add: getitem_clean_row_other pre_row_def Let_def getitem_update)










lemma cell_mul_error: "cell_mul a k = Inl e \<Longrightarrow> e = TypeError"
  by (cases a) auto

lemma cell_add_error: "cell_add a b = Inl e \<Longrightarrow> e = TypeError"
  by (cases a; cases b) auto

lemma engagement_score_error: "engagement_score r = Inl e \<Longrightarrow> e = TypeError"
  by (auto simp: engagement_score_def split: sum.splits dest: cell_mul_error cell_add_error)



lemma engagement_score_pre_row:
  "engagement_score (pre_row cs r) = engagement_score r"
  by (rule engagement_score_cong) (simp_all add: getitem_pre_row_other)

lemma load_dataset_total:
  assumes "\<not> set [''Likes'', ''Comments'', ''Shares''] \<subseteq> set (columns df)
           \<or> (\<forall>r \<in> set (rows df). \<exists>v. engagement_score (snd r) = Inr v)"
  shows "\<exists>out. load_dataset df = Inr out"
proof -
  from assms have "\<exists>df3. clean_columns df = Inr df3"
    by (intro clean_columns_total) (simp only: engagement_score_pre_row)
  then show ?thesis by (auto simp: load_dataset_def)
qed

lemma load_dataset_error:
  assumes "load_dataset df = Inl e"
  shows "set [''Likes'', ''Comments'', ''Shares''] \<subseteq> set (columns df) \<and> e = TypeError
         \<and> (\<exists>r \<in> set (rows df). engagement_score (snd r) = Inl TypeError)"
proof -
  from assms have c: "clean_columns df = Inl e"
    by (auto simp: load_dataset_def split: sum.splits)
  then have m: "set [''Likes'', ''Comments'', ''Shares''] \<subseteq> set (columns df)"
    by (auto simp: clean_columns_unfold split: if_splits)
  with c have "try_rows ''Engagement_Score'' engagement_score (rows (pre_frame df)) = Inl e"
    by (auto simp: clean_columns_unfold assign_try_def split: sum.splits)
  from try_rows_Inl [OF this] obtain r where "r \<in> set (rows df)"
    and "engagement_score (pre_row (columns df) (snd r)) = Inl e"
    by (auto simp: pre_frame_def)
  then have r: "r \<in> set (rows df)" and s: "engagement_score (snd r) = Inl e"
    by (simp_all only: engagement_score_pre_row)
  from engagement_score_error [OF s] have "e = TypeError" .
  with m r s show ?thesis by blast
qed

lemma map_of_pre_row_no_Date:
  "''Date'' \<notin> set cs \<Longrightarrow> map_of (pre_row cs r) ''Date'' = map_of r ''Date''"
  by (simp add: pre_row_def Let_def update_conv')

lemma map_of_pre_row_no_Author:
  "''Author_Type'' \<notin> set cs \<Longrightarrow> map_of (pre_row cs r) ''Author_Type'' = map_of r ''Author_Type''"
  by (simp add: pre_row_def Let_def update_conv')

lemma pre_frame_id:
  "''Date'' \<notin> set (columns df) \<Longrightarrow> ''Author_Type'' \<notin> set (columns df) \<Longrightarrow> pre_frame df = df"
  by (simp add: pre_frame_def pre_row_def)

lemma loc_rows_subseq: "loc_rows m rs = Inr rs' \<Longrightarrow> subseq rs' rs"
  by (induction rs arbitrary: rs') (auto split: sum.splits if_splits)

lemma loc_rows_sat: "loc_rows m rs = Inr rs' \<Longrightarrow> r \<in> set rs' \<Longrightarrow> m (snd r) = Inr True"
  by (induction rs arbitrary: rs') (auto split: sum.splits if_splits)

lemma loc_rows_filter:
  "loc_rows m rs = Inr rs' \<Longrightarrow> rs' = filter (\<lambda>r. m (snd r) = Inr True) rs"
  by (induction rs arbitrary: rs') (auto split: sum.splits if_splits)

lemma loc_rows_total:
  "\<forall>r \<in> set rs. \<exists>b. m (snd r) = Inr b \<Longrightarrow> \<exists>rs'. loc_rows m rs = Inr rs'"
  by (induction rs) (auto split: sum.splits)

lemma loc_all: "\<forall>r \<in> set (rows f). m (snd r) \<Longrightarrow> loc m f = f"
  by (simp add: loc_def)

lemma columns_loc: "columns (loc m f) = columns f"
  by (simp add: loc_def)

lemma subseq_rows_loc: "subseq (rows (loc m f)) (rows f)"
  by (simp add: loc_def)

lemma between_Inr_True:
  "between s e c = Inr True \<longleftrightarrow> (\<exists>d. c = Ts d \<and> date_le s d \<and> date_le d e)"
  by (cases c) auto

lemma apply_filters_stages:
  "apply_filters df sd ed sa sc =
     (case date_stage df sd ed of
        Inl e \<Rightarrow> Inl e
      | Inr f1 \<Rightarrow> Inr (select_stage ''Content_Type'' sc (select_stage ''Author_Type'' sa f1)))"
  by (simp add: apply_filters_def date_stage_def select_stage_def Let_def cong: sum.case_cong)

lemma date_stage_None [simp]:
  "date_stage df None ed = Inr df" "date_stage df sd None = Inr df"
  by (simp_all add: date_stage_def split: option.splits)

lemma date_stage_Inr:
  assumes "date_stage df sd ed = Inr f1"
  shows "columns f1 = columns df \<and> subseq (rows f1) (rows df)"
  using assms
  by (auto simp: date_stage_def loc_try_def split: option.splits if_splits sum.splits
      dest: loc_rows_subseq)

lemma date_stage_range:
  assumes "date_stage df (Some s) (Some e) = Inr f1" and "''Date'' \<in> set (columns df)"
  shows "rows f1 =
           filter (\<lambda>r. \<exists>d. getitem (snd r) ''Date'' = Ts d \<and> date_le s d \<and> date_le d e) (rows df)"
proof -
  from assms obtain rs
    where l: "loc_rows (\<lambda>r. between s e (getitem r ''Date'')) (rows df) = Inr rs"
      and "rows f1 = rs"
    by (auto simp: date_stage_def loc_try_def split: sum.splits)
  with loc_rows_filter [OF l] show ?thesis by (simp add: between_Inr_True)
qed

lemma select_stage_Nil [simp]: "select_stage c [] f = f"
  by (simp add: select_stage_def)

lemma select_stage_props:
  "columns (select_stage c sel f) = columns f \<and> subseq (rows (select_stage c sel f)) (rows f)"
  by (simp add: select_stage_def loc_def)

lemma select_stage_all:
  assumes "set (rows f) \<subseteq> set (rows df)"
  shows "select_stage c (column df c) f = f"
proof -
  have "\<forall>r \<in> set (rows f). isin (column df c) (getitem (snd r) c)"
    using assms by (auto simp: isin_def column_def)
  then show ?thesis by (simp add: select_stage_def loc_all)
qed

lemma subseq_set: "subseq xs ys \<Longrightarrow> set xs \<subseteq> set ys"
  by (auto elim: list_emb_set)

lemma date_le_refl: "date_le a a"
  by (simp add: date_le_def)

lemma date_le_trans: "date_le a b \<Longrightarrow> date_le b c \<Longrightarrow> date_le a c"
  by (auto simp: date_le_def)

lemma date_le_antisym: "date_le a b \<Longrightarrow> date_le b a \<Longrightarrow> a = b"
  by (auto simp: date_le_def prod_eq_iff)

lemma date_le_total: "date_le a b \<or> date_le b a"
  by (auto simp: date_le_def)

lemma between_to_datetime: "\<exists>b. between s e (to_datetime v) = Inr b"
  by (cases v) (auto split: option.splits)

lemma apply_filters_Inr:
  assumes "apply_filters df sd ed sa sc = Inr out"
  obtains f1 where "date_stage df sd ed = Inr f1"
    and "out = select_stage ''Content_Type'' sc (select_stage ''Author_Type'' sa f1)"
  using assms by (auto simp: apply_filters_stages split: sum.splits)

lemma apply_filters_after_load_dataset:
  assumes "load_dataset df0 = Inr df"
  shows "\<exists>out. apply_filters df sd ed sa sc = Inr out"
proof -
  have "\<exists>f1. date_stage df sd ed = Inr f1"
  proof (cases "\<exists>s e. sd = Some s \<and> ed = Some e \<and> ''Date'' \<in> set (columns df)")
    case False
    then show ?thesis by (auto simp: date_stage_def split: option.splits)
  next
    case True
    then obtain s e where sd: "sd = Some s" and ed: "ed = Some e"
      and c: "''Date'' \<in> set (columns df)" by blast
    from c load_dataset_columns [OF assms] have c0: "''Date'' \<in> set (columns df0)"
      by (auto simp: set_setitem_columns split: if_splits)
    have "\<exists>b. between s e (getitem (snd r) ''Date'') = Inr b" if "r \<in> set (rows df)" for r
    proof -
      from load_dataset_row_source [OF assms that] obtain r0
        where "r0 \<in> set (rows df0)" and "snd r = clean_row (columns df0) (snd r0)" by blast
      then show ?thesis
        by (simp only: getitem_clean_row_Date [OF c0] between_to_datetime)
    qed
    then have "\<forall>r \<in> set (rows df). \<exists>b. between s e (getitem (snd r) ''Date'') = Inr b"
      by blast
    from loc_rows_total [OF this] sd ed c show ?thesis
      by (auto simp: date_stage_def loc_try_def)
  qed
  then show ?thesis by (auto simp: apply_filters_stages)
qed

lemma set_insert_key: "set (insert_key k ks) = insert k (set ks)"
  by (induction ks) auto

lemma distinct_insert_key: "distinct (insert_key k ks) \<longleftrightarrow> k \<notin> set ks \<and> distinct ks"
  by (induction ks) (auto simp: set_insert_key)

lemma set_sort_keys: "set (sort_keys ks) = set ks"
  unfolding sort_keys_def by (induction ks) (auto simp: set_insert_key)

lemma distinct_sort_keys: "distinct ks \<Longrightarrow> distinct (sort_keys ks)"
  unfolding sort_keys_def
  by (induction ks) (auto simp: distinct_insert_key set_sort_keys [unfolded sort_keys_def])

lemma set_group_keys:
  "set (group_keys df keys) =
     {k. NaN \<notin> set k \<and> (\<exists>r \<in> set (rows df). group_key keys (snd r) = k)}"
  by (auto simp: group_keys_def set_sort_keys)

lemma distinct_group_keys: "distinct (group_keys df keys)"
  by (simp add: group_keys_def distinct_sort_keys)

lemma groupby_agg_Inr:
  assumes "groupby_agg df keys metric fn = Inr res"
  shows "res = map (\<lambda>k. (k, reduce fn (numbers (group_values df keys metric k))))
                 (group_keys df keys)"
  using assms by (auto simp: groupby_agg_def split: if_splits)

lemma load_and_analyze_data_clean_eq: "load_and_analyze_data_clean df = load_dataset df"
  by (simp only: load_and_analyze_data_clean_def load_dataset_def clean_columns_def
      parse_date_def normalize_author_def Let_def)

lemma keys_update_mem:
  assumes "map fst r = cs" and "c \<in> set cs"
  shows "map fst (AList.update c v r) = cs"
proof -
  from assms have "c \<in> set (map fst r)" by (simp only:)
  then have "map fst (AList.update c v r) = map fst r" by (simp only: update_keys if_True)
  with assms(1) show ?thesis by (simp only:)
qed

lemma keys_update_new:
  assumes "map fst r = cs" and "c \<notin> set cs"
  shows "map fst (AList.update c v r) = cs @ [c]"
proof -
  from assms have "c \<notin> set (map fst r)" by (simp only: not_False_eq_True)
  then have "map fst (AList.update c v r) = map fst r @ [c]" by (simp only: update_keys if_False)
  with assms(1) show ?thesis by (simp only:)
qed

lemma keys_update:
  "map fst r = cs \<Longrightarrow> map fst (AList.update c v r) = setitem_columns c cs"
proof (cases "c \<in> set cs")
  case True
  assume "map fst r = cs"
  from keys_update_mem [OF this True] True show ?thesis
    by (simp add: setitem_columns_def)
next
  case False
  assume "map fst r = cs"
  from keys_update_new [OF this False] False show ?thesis
    by (simp add: setitem_columns_def)
qed

lemma keys_cond_update:
  "map fst r = cs \<Longrightarrow> map fst (if c \<in> set cs then AList.update c v r else r) = cs"
  by (cases "c \<in> set cs") (simp_all only: keys_update_mem if_True if_False)

lemma keys_pre_row:
  assumes "map fst r = cs"
  shows "map fst (pre_row cs r) = cs"
  unfolding pre_row_def Let_def by (intro keys_cond_update assms)

lemma keys_clean_row:
  assumes "map fst r = cs"
    and "set [''Likes'', ''Comments'', ''Shares''] \<subseteq> set cs \<longrightarrow>
           (\<exists>v. engagement_score (pre_row cs r) = Inr v)"
  shows "map fst (clean_row cs r) =
           (if set [''Likes'', ''Comments'', ''Shares''] \<subseteq> set cs
            then setitem_columns ''Engagement_Score'' cs else cs)"
proof (cases "set [''Likes'', ''Comments'', ''Shares''] \<subseteq> set cs")
  case True
  with assms(2) obtain v where "engagement_score (pre_row cs r) = Inr v" by blast
  with True keys_update [OF keys_pre_row [OF assms(1)], of "''Engagement_Score''" v]
  show ?thesis by (simp add: clean_row_def)
next
  case False
  with keys_pre_row [OF assms(1)] show ?thesis by (auto simp: clean_row_def)
qed

lemma distinct_setitem_columns: "distinct cs \<Longrightarrow> distinct (setitem_columns c cs)"
  by (simp add: setitem_columns_def)

lemma wf_frame_load_dataset:
  assumes "wf_frame df" and "load_dataset df = Inr out"
  shows "wf_frame out"
proof -
  from assms(2) obtain df3 where c: "clean_columns df = Inr df3"
    by (rule load_dataset_rows)
  from assms(1) have d: "distinct (columns df)"
    and k: "\<forall>r \<in> set (rows df). map fst (snd r) = columns df"
    by (simp_all add: wf_frame_def list_all_iff)
  have "distinct (columns out)"
    using d load_dataset_columns [OF assms(2)] by (simp add: distinct_setitem_columns)
  moreover have "map fst (snd r) = columns out" if r: "r \<in> set (rows out)" for r
  proof -
    from load_dataset_row_source [OF assms(2) r] obtain r0
      where r0: "r0 \<in> set (rows df)" and e: "snd r = clean_row (columns df) (snd r0)" by blast
    from k r0 have m: "map fst (snd r0) = columns df" by blast
    have "set [''Likes'', ''Comments'', ''Shares''] \<subseteq> set (columns df) \<longrightarrow>
           (\<exists>v. engagement_score (pre_row (columns df) (snd r0)) = Inr v)"
      using clean_columns_ok [OF c _ r0] by blast
    from keys_clean_row [OF m this] show ?thesis
      unfolding e load_dataset_columns [OF assms(2)] .
  qed
  ultimately show ?thesis by (simp add: wf_frame_def list_all_iff)
qed

lemma wf_frame_posts: "wf_frame posts"
  by (simp add: wf_frame_def posts_def)

section \<open>Properties of the pipeline\<close>



text \<open>
  Claim C2, as amended. \<open>load_dataset\<close> drops duplicates after the column steps, so the
  rows that are compared are the cleaned ones. The output lists the distinct cleaned rows,
  each at its first occurrence and in first-seen order (\<open>remdups\<close> keeps the last
  occurrence of each element, so between the two reversals it keeps the first); no two
  output rows are equal in every column; the output has as many rows as there are distinct
  cleaned rows, which is at most the number of distinct rows of the input; and the labels
  are 0, 1, 2, ... without gaps.
\<close>

theorem duplicates_dropped_after_cleaning:
  assumes "load_dataset df = Inr out"
  shows "\<exists>df3. clean_columns df = Inr df3
           \<and> map snd (rows out) = rev (remdups (rev (map snd (rows df3))))
           \<and> distinct (map snd (rows out))
           \<and> length (rows out) = card (set (map snd (rows df3)))
           \<and> length (rows out) \<le> card (set (map snd (rows df)))
           \<and> map fst (rows out) = [0 ..< length (rows out)]"
proof -
  from assms obtain df3 where c: "clean_columns df = Inr df3"
    and m: "map snd (rows out) = map snd (drop_seen [] (rows df3))"
    and i: "map fst (rows out) = [0 ..< length (rows out)]"
    by (rule load_dataset_rows)
  have f: "map snd (rows out) = rev (remdups (rev (map snd (rows df3))))"
    unfolding m by (rule first_seen_drop_seen)
  have d: "distinct (map snd (rows out))"
    unfolding f by simp
  have "length (map snd (rows out)) = card (set (map snd (rows df3)))"
    unfolding f by (simp add: length_remdups_card_conv)
  then have l: "length (rows out) = card (set (map snd (rows df3)))" by simp
  have "set (map snd (rows df3)) = clean_row (columns df) ` set (map snd (rows df))"
    unfolding clean_columns_values [OF c] by (simp add: image_image)
  then have "card (set (map snd (rows df3))) \<le> card (set (map snd (rows df)))"
    by (simp add: card_image_le)
  with c f d l i show ?thesis by auto
qed

text \<open>Witness for C2 on the three posts with differently written author types.\<close>

theorem duplicates_dropped_after_cleaning_witness:
  "load_dataset dup_posts = Inr dup_posts_clean
   \<and> distinct (map snd (rows dup_posts_clean))
   \<and> map fst (rows dup_posts_clean) = [0 ..< length (rows dup_posts_clean)]
   \<and> length (rows dup_posts_clean) \<le> card (set (map snd (rows dup_posts)))"
proof -
  have h: "load_dataset dup_posts = Inr dup_posts_clean" by (rule load_dataset_dup_posts)
  from duplicates_dropped_after_cleaning [OF h] h show ?thesis by blast
qed

text \<open>
  Counterexample to C2 as stated: the input holds a duplicate and has two distinct rows,
  but its author types \<open>ai \<close> and \<open>AI\<close> are both cleaned to \<open>Ai\<close>, so the output has
  one row, not two.
\<close>

theorem size_is_not_distinct_input_rows:
  "\<not> distinct (map snd (rows dup_posts))
   \<and> load_dataset dup_posts = Inr dup_posts_clean
   \<and> card (set (map snd (rows dup_posts))) = 2
   \<and> length (rows dup_posts_clean) = 1"
proof -
  have "\<not> distinct (map snd (rows dup_posts))" by (simp add: dup_posts_def)
  moreover have "card (set (map snd (rows dup_posts))) = 2" by (simp add: dup_posts_def)
  moreover have "length (rows dup_posts_clean) = 1" by (simp add: dup_posts_clean_def)
  ultimately show ?thesis using load_dataset_dup_posts by blast
qed

text \<open>
  Claim C9. The score is assigned to the column Engagement_Score only: the columns Likes,
  Comments and Shares are the same after the assignment as before, and the same after all
  the column steps as in the input, missing values included (\<open>fillna\<close> builds the
  operands of the sum and is never stored). The final frame holds these columns for the
  rows that survive the removal of duplicates, in order.
\<close>

theorem score_leaves_counts_unchanged:
  assumes "c \<in> set [''Likes'', ''Comments'', ''Shares'']"
  shows "(assign_try ''Engagement_Score'' engagement_score d = Inr d' \<longrightarrow>
            column d' c = column d c)
       \<and> (clean_columns df = Inr df3 \<longrightarrow> column df3 c = column df c)
       \<and> (load_dataset df = Inr out \<longrightarrow> subseq (column out c) (column df c))"
proof -
  from assms have n: "c \<noteq> ''Date''" "c \<noteq> ''Author_Type''" "c \<noteq> ''Engagement_Score''"
    by auto
  have 1: "column d' c = column d c"
    if "assign_try ''Engagement_Score'' engagement_score d = Inr d'"
  proof -
    from that obtain rs
      where t: "try_rows ''Engagement_Score'' engagement_score (rows d) = Inr rs"
        and "rows d' = rs"
      by (auto simp: assign_try_def split: sum.splits)
    with try_rows_column [OF t n(3)] show ?thesis by (simp add: column_def)
  qed
  have 2: "column df3 c = column df c" if "clean_columns df = Inr df3"
    by (rule clean_columns_column [OF that n])
  have 3: "subseq (column out c) (column df c)" if l: "load_dataset df = Inr out"
  proof -
    from l obtain df3' where c: "clean_columns df = Inr df3'" by (rule load_dataset_rows)
    from load_dataset_subseq [OF l c, of c] clean_columns_column [OF c n] show ?thesis by simp
  qed
  from 1 2 3 show ?thesis by blast
qed

text \<open>
  Witness for C9: the post without a comment count still has none after cleaning, while its
  score has been computed.
\<close>

theorem score_leaves_counts_unchanged_witness:
  "''Comments'' \<in> set [''Likes'', ''Comments'', ''Shares'']
   \<and> load_dataset posts = Inr posts_clean
   \<and> column posts ''Comments'' = [Num 2, Num 2, NaN, Num 0]
   \<and> column posts_clean ''Comments'' = [Num 2, NaN, Num 0]
   \<and> column posts_clean ''Engagement_Score'' = [Num 17, Num 5, Num 1]
   \<and> subseq (column posts_clean ''Comments'') (column posts ''Comments'')"
proof -
  have m: "''Comments'' \<in> set [''Likes'', ''Comments'', ''Shares'']" by simp
  have h: "load_dataset posts = Inr posts_clean" by (rule load_dataset_posts)
  have a: "column posts ''Comments'' = [Num 2, Num 2, NaN, Num 0]"
    by (simp add: posts_def column_def getitem_def)
  have b: "column posts_clean ''Comments'' = [Num 2, NaN, Num 0]"
    by (simp add: posts_clean_def column_def getitem_def)
  have e: "column posts_clean ''Engagement_Score'' = [Num 17, Num 5, Num 1]"
    by (simp add: posts_clean_def column_def getitem_def)
  from score_leaves_counts_unchanged [OF m, of _ _ posts _ posts_clean] h
  have "subseq (column posts_clean ''Comments'') (column posts ''Comments'')" by blast
  with m h a b e show ?thesis by blast
qed

text \<open>
  Claim C7. When the input has the column Author_Type, every value of that column is
  replaced by its text (\<open>astype(str)\<close>, which leaves a string as it is), stripped and
  title-cased: before duplicates are dropped the column is the image of the input column,
  value by value; every input row has its normalized value in the output and every output
  value is the normalized value of an input row, so no value is rejected, whatever it is.
  \<open>strip\<close> removes a block of whitespace at each end and nothing else, and what remains
  neither starts nor ends with whitespace. \<open>title\<close> keeps the length; a letter that starts
  a word (it is first or follows a character that is not a letter) is raised, a letter
  inside a word is lowered, and every other character is kept. The text \<open>ai \<close> becomes
  \<open>Ai\<close>.
\<close>

theorem author_type_normalized:
  assumes "load_dataset df = Inr out" and "''Author_Type'' \<in> set (columns df)"
  shows "(\<exists>df3. clean_columns df = Inr df3
            \<and> out = reset_index (drop_duplicates df3)
            \<and> column df3 ''Author_Type'' =
                map (\<lambda>v. Str (title (strip (astype_str v)))) (column df ''Author_Type''))
       \<and> (\<forall>r0 \<in> set (rows df). \<exists>r \<in> set (rows out).
             getitem (snd r) ''Author_Type'' =
               Str (title (strip (astype_str (getitem (snd r0) ''Author_Type'')))))
       \<and> (\<forall>r \<in> set (rows out). \<exists>r0 \<in> set (rows df).
             getitem (snd r) ''Author_Type'' =
               Str (title (strip (astype_str (getitem (snd r0) ''Author_Type'')))))
       \<and> (\<forall>s. astype_str (Str s) = s
             \<and> (\<exists>a b. s = a @ strip s @ b \<and> list_all isspace a \<and> list_all isspace b)
             \<and> (strip s \<noteq> [] \<longrightarrow> \<not> isspace (hd (strip s)) \<and> \<not> isspace (last (strip s)))
             \<and> length (title s) = length s
             \<and> (\<forall>i < length s.
                   title s ! i =
                     (if isalpha (s ! i)
                      then (if 0 < i \<and> isalpha (s ! (i - 1)) then lower (s ! i)
                            else upper (s ! i))
                      else s ! i)))
       \<and> title (strip ''ai '') = ''Ai''"
proof -
  from assms(1) obtain df3 where c: "clean_columns df = Inr df3"
    and o: "out = reset_index (drop_duplicates df3)"
    by (auto simp: load_dataset_def split: sum.splits)
  have 1: "\<exists>df3. clean_columns df = Inr df3
            \<and> out = reset_index (drop_duplicates df3)
            \<and> column df3 ''Author_Type'' =
                map (\<lambda>v. Str (title (strip (astype_str v)))) (column df ''Author_Type'')"
    using c o clean_columns_author [OF c assms(2)] by blast
  have 2: "\<exists>r \<in> set (rows out).
             getitem (snd r) ''Author_Type'' =
               Str (title (strip (astype_str (getitem (snd r0) ''Author_Type''))))"
    if "r0 \<in> set (rows df)" for r0
    using load_dataset_row_kept [OF assms(1) that] getitem_clean_row_Author [OF assms(2)]
    by metis
  have 3: "\<exists>r0 \<in> set (rows df).
             getitem (snd r) ''Author_Type'' =
               Str (title (strip (astype_str (getitem (snd r0) ''Author_Type''))))"
    if "r \<in> set (rows out)" for r
    using load_dataset_row_source [OF assms(1) that] getitem_clean_row_Author [OF assms(2)]
    by metis
  have 4: "astype_str (Str s) = s
             \<and> (\<exists>a b. s = a @ strip s @ b \<and> list_all isspace a \<and> list_all isspace b)
             \<and> (strip s \<noteq> [] \<longrightarrow> \<not> isspace (hd (strip s)) \<and> \<not> isspace (last (strip s)))
             \<and> length (title s) = length s
             \<and> (\<forall>i < length s.
                   title s ! i =
                     (if isalpha (s ! i)
                      then (if 0 < i \<and> isalpha (s ! (i - 1)) then lower (s ! i)
                            else upper (s ! i))
                      else s ! i))" for s
    using strip_decomp [of s] strip_ends [of s] title_nth [of _ s]
    by (simp add: title_def length_title_from)
  from 1 2 3 4 title_strip_ai show ?thesis by blast
qed

text \<open>
  Witness for C7: the author types \<open>ai \<close>, \<open>ai \<close> and \<open>AI\<close> all come out as \<open>Ai\<close>.
\<close>

theorem author_type_normalized_witness:
  "load_dataset dup_posts = Inr dup_posts_clean
   \<and> ''Author_Type'' \<in> set (columns dup_posts)
   \<and> column dup_posts ''Author_Type'' = [Str ''ai '', Str ''ai '', Str ''AI'']
   \<and> column dup_posts_clean ''Author_Type'' = [Str ''Ai'']
   \<and> title (strip ''ai '') = ''Ai''"
proof -
  have h: "load_dataset dup_posts = Inr dup_posts_clean" by (rule load_dataset_dup_posts)
  have a: "''Author_Type'' \<in> set (columns dup_posts)" by (simp add: dup_posts_def)
  have c: "column dup_posts ''Author_Type'' = [Str ''ai '', Str ''ai '', Str ''AI'']"
    by (simp add: dup_posts_def column_def getitem_def)
  have r: "column dup_posts_clean ''Author_Type'' = [Str ''Ai'']"
    by (simp add: dup_posts_clean_def column_def getitem_def)
  from author_type_normalized [OF h a] have t: "title (strip ''ai '') = ''Ai''" by (elim conjE)
  show ?thesis by (intro conjI h a c r t)
qed





text \<open>
  Claim C6. No absent column makes \<open>load_dataset\<close> fail. If one of Likes, Comments and
  Shares is absent, it returns a frame, whatever the table holds. The only error it can
  return is the \<open>TypeError\<close> of the score arithmetic on a row of the input whose counts
  are not numbers, and then all three count columns are present. Each step is skipped when
  its column is absent: without a Date column no row gets a date entry that it did not
  have, the same for Author_Type, and without the three count columns no column is added
  and the Engagement_Score entries are those of the input. With none of these columns the
  result is the input without duplicates, relabelled.
\<close>

theorem absent_columns_skip_steps:
  "(\<not> set [''Likes'', ''Comments'', ''Shares''] \<subseteq> set (columns df) \<longrightarrow>
      (\<exists>out'. load_dataset df = Inr out'))
   \<and> (load_dataset df = Inl e \<longrightarrow>
        set [''Likes'', ''Comments'', ''Shares''] \<subseteq> set (columns df) \<and> e = TypeError
        \<and> (\<exists>r \<in> set (rows df). engagement_score (snd r) = Inl TypeError))
   \<and> (load_dataset df = Inr out \<longrightarrow>
        (''Date'' \<notin> set (columns df) \<longrightarrow>
           (\<forall>r \<in> set (rows out). \<exists>r0 \<in> set (rows df).
              map_of (snd r) ''Date'' = map_of (snd r0) ''Date''))
        \<and> (''Author_Type'' \<notin> set (columns df) \<longrightarrow>
           (\<forall>r \<in> set (rows out). \<exists>r0 \<in> set (rows df).
              map_of (snd r) ''Author_Type'' = map_of (snd r0) ''Author_Type''))
        \<and> (\<not> set [''Likes'', ''Comments'', ''Shares''] \<subseteq> set (columns df) \<longrightarrow>
           columns out = columns df
           \<and> (\<forall>r \<in> set (rows out). \<exists>r0 \<in> set (rows df).
                map_of (snd r) ''Engagement_Score'' = map_of (snd r0) ''Engagement_Score'')))
   \<and> (''Date'' \<notin> set (columns df) \<and> ''Author_Type'' \<notin> set (columns df)
        \<and> \<not> set [''Likes'', ''Comments'', ''Shares''] \<subseteq> set (columns df) \<longrightarrow>
        load_dataset df = Inr (reset_index (drop_duplicates df)))"
proof -
  have 1: "\<exists>out'. load_dataset df = Inr out'"
    if "\<not> set [''Likes'', ''Comments'', ''Shares''] \<subseteq> set (columns df)"
    using that load_dataset_total [of df] by blast
  have 2: "set [''Likes'', ''Comments'', ''Shares''] \<subseteq> set (columns df) \<and> e = TypeError
        \<and> (\<exists>r \<in> set (rows df). engagement_score (snd r) = Inl TypeError)"
    if "load_dataset df = Inl e"
    by (rule load_dataset_error [OF that])
  have 3: "\<exists>r0 \<in> set (rows df). map_of (snd r) ''Date'' = map_of (snd r0) ''Date''"
    if l: "load_dataset df = Inr out" and n: "''Date'' \<notin> set (columns df)"
      and r: "r \<in> set (rows out)" for r
  proof -
    from load_dataset_row_source [OF l r] obtain r0
      where r0: "r0 \<in> set (rows df)" and e: "snd r = clean_row (columns df) (snd r0)" by blast
    have "map_of (snd r) ''Date'' = map_of (snd r0) ''Date''"
      unfolding e by (simp add: map_of_clean_row_other map_of_pre_row_no_Date [OF n])
    with r0 show ?thesis by blast
  qed
  have 4: "\<exists>r0 \<in> set (rows df). map_of (snd r) ''Author_Type'' = map_of (snd r0) ''Author_Type''"
    if l: "load_dataset df = Inr out" and n: "''Author_Type'' \<notin> set (columns df)"
      and r: "r \<in> set (rows out)" for r
  proof -
    from load_dataset_row_source [OF l r] obtain r0
      where r0: "r0 \<in> set (rows df)" and e: "snd r = clean_row (columns df) (snd r0)" by blast
    have "map_of (snd r) ''Author_Type'' = map_of (snd r0) ''Author_Type''"
      unfolding e by (simp add: map_of_clean_row_other map_of_pre_row_no_Author [OF n])
    with r0 show ?thesis by blast
  qed
  have 5: "columns out = columns df
           \<and> (\<forall>r \<in> set (rows out). \<exists>r0 \<in> set (rows df).
                map_of (snd r) ''Engagement_Score'' = map_of (snd r0) ''Engagement_Score'')"
    if l: "load_dataset df = Inr out"
      and n: "\<not> set [''Likes'', ''Comments'', ''Shares''] \<subseteq> set (columns df)"
  proof -
    have "columns out = columns df"
      using n load_dataset_columns [OF l] by auto
    moreover have "\<exists>r0 \<in> set (rows df).
        map_of (snd r) ''Engagement_Score'' = map_of (snd r0) ''Engagement_Score''"
      if r: "r \<in> set (rows out)" for r
    proof -
      from load_dataset_row_source [OF l r] obtain r0
        where r0: "r0 \<in> set (rows df)" and e: "snd r = clean_row (columns df) (snd r0)" by blast
      have "map_of (snd r) ''Engagement_Score'' = map_of (snd r0) ''Engagement_Score''"
        unfolding e clean_row_no_score [OF n] by (simp add: map_of_pre_row_other)
      with r0 show ?thesis by blast
    qed
    ultimately show ?thesis by blast
  qed
  have 6: "load_dataset df = Inr (reset_index (drop_duplicates df))"
    if "''Date'' \<notin> set (columns df)" and "''Author_Type'' \<notin> set (columns df)"
      and "\<not> set [''Likes'', ''Comments'', ''Shares''] \<subseteq> set (columns df)"
    using that by (auto simp: load_dataset_def clean_columns_unfold pre_frame_id)
  from 1 2 3 4 5 6 show ?thesis by blast
qed

text \<open>
  Witness for C6 on a table that has only a content type and likes.
\<close>

theorem absent_columns_skip_steps_witness:
  "\<not> set [''Likes'', ''Comments'', ''Shares''] \<subseteq> set (columns bare_posts)
   \<and> ''Date'' \<notin> set (columns bare_posts) \<and> ''Author_Type'' \<notin> set (columns bare_posts)
   \<and> reset_index (drop_duplicates bare_posts) = bare_posts_clean
   \<and> load_dataset bare_posts = Inr bare_posts_clean
   \<and> columns bare_posts_clean = columns bare_posts"
proof -
  have a: "\<not> set [''Likes'', ''Comments'', ''Shares''] \<subseteq> set (columns bare_posts)"
    and b: "''Date'' \<notin> set (columns bare_posts)"
    and c: "''Author_Type'' \<notin> set (columns bare_posts)"
    by (simp_all add: bare_posts_def)
  have d: "reset_index (drop_duplicates bare_posts) = bare_posts_clean"
    by code_simp
  from absent_columns_skip_steps [of bare_posts] a b c
  have "load_dataset bare_posts = Inr (reset_index (drop_duplicates bare_posts))" by blast
  then have l: "load_dataset bare_posts = Inr bare_posts_clean" by (simp only: d)
  have "columns bare_posts_clean = columns bare_posts"
    by (simp add: bare_posts_def bare_posts_clean_def)
  with a b c d l show ?thesis by blast
qed

text \<open>
  Claim C4. Without constraints the filter block returns its input: the same columns and
  the same rows with the same labels in the same order. Each constraint on its own means no
  restriction when it is omitted or empty: a date range of which one end is missing is
  ignored, and an empty selection of author types (of content types) gives the same result
  as selecting every value that occurs in the column of the input.
\<close>

theorem no_constraints_no_filter:
  "apply_filters df None None [] [] = Inr df
   \<and> apply_filters df None ed sa sc = apply_filters df None None sa sc
   \<and> apply_filters df sd None sa sc = apply_filters df None None sa sc
   \<and> apply_filters df sd ed [] sc = apply_filters df sd ed (column df ''Author_Type'') sc
   \<and> apply_filters df sd ed sa [] = apply_filters df sd ed sa (column df ''Content_Type'')"
proof -
  have 1: "apply_filters df None None [] [] = Inr df"
    by (simp add: apply_filters_stages)
  have 2: "apply_filters df None ed sa sc = apply_filters df None None sa sc"
    by (simp add: apply_filters_stages)
  have 3: "apply_filters df sd None sa sc = apply_filters df None None sa sc"
    by (simp add: apply_filters_stages)
  have 4: "apply_filters df sd ed [] sc = apply_filters df sd ed (column df ''Author_Type'') sc"
  proof (cases "date_stage df sd ed")
    case (Inl e)
    then show ?thesis by (simp add: apply_filters_stages)
  next
    case (Inr f1)
    from date_stage_Inr [OF Inr] have "set (rows f1) \<subseteq> set (rows df)"
      by (blast dest: subseq_set)
    then have "select_stage ''Author_Type'' (column df ''Author_Type'') f1 = f1"
      by (rule select_stage_all)
    with Inr show ?thesis by (simp add: apply_filters_stages)
  qed
  have 5: "apply_filters df sd ed sa [] = apply_filters df sd ed sa (column df ''Content_Type'')"
  proof (cases "date_stage df sd ed")
    case (Inl e)
    then show ?thesis by (simp add: apply_filters_stages)
  next
    case (Inr f1)
    let ?f2 = "select_stage ''Author_Type'' sa f1"
    from date_stage_Inr [OF Inr] have "set (rows f1) \<subseteq> set (rows df)"
      by (blast dest: subseq_set)
    moreover have "set (rows ?f2) \<subseteq> set (rows f1)"
      using select_stage_props [of "''Author_Type''" sa f1] by (blast dest: subseq_set)
    ultimately have "set (rows ?f2) \<subseteq> set (rows df)" by blast
    then have "select_stage ''Content_Type'' (column df ''Content_Type'') ?f2 = ?f2"
      by (rule select_stage_all)
    with Inr show ?thesis by (simp add: apply_filters_stages)
  qed
  show ?thesis by (intro conjI 1 2 3 4 5)
qed

text \<open>
  Witness for C4 on the cleaned example: nothing selected returns the table; with the
  content type Video and no author type selected the Video post is returned, not nothing.
\<close>

theorem no_constraints_no_filter_witness:
  "apply_filters posts_clean None None [] [] = Inr posts_clean
   \<and> apply_filters posts_clean None None [] [Str ''Video'']
       = apply_filters posts_clean None None (column posts_clean ''Author_Type'') [Str ''Video'']
   \<and> apply_filters posts_clean None None [] [Str ''Video''] = Inr human_posts"
proof -
  note w = no_constraints_no_filter
    [where df = posts_clean and sd = None and ed = None and sa = "[]" and sc = "[Str ''Video'']"]
  have "apply_filters posts_clean None None [] [Str ''Video''] = Inr human_posts"
    by code_simp
  with w [THEN conjunct1] w [THEN conjunct2, THEN conjunct2, THEN conjunct2, THEN conjunct1]
  show ?thesis by (intro conjI)
qed

text \<open>
  Claim C5. If the filter block is run with a date range and returns a frame, that frame has
  the columns of the input, its rows are a subsequence of the rows of the input (same
  labels, same values, same relative order), and when the input has a Date column every
  returned row has a date \<open>d\<close> with \<open>start \<le> d \<le> end\<close>; with no other constraint the
  result is exactly the rows of the input that have such a date. On a frame that
  \<open>load_dataset\<close> produced the filter block always returns a frame.
\<close>

theorem date_range_filter:
  "(apply_filters df (Some s) (Some e) sa sc = Inr out \<longrightarrow>
      columns out = columns df
      \<and> subseq (rows out) (rows df)
      \<and> (''Date'' \<in> set (columns df) \<longrightarrow>
           (\<forall>r \<in> set (rows out). \<exists>d. getitem (snd r) ''Date'' = Ts d \<and> date_le s d \<and> date_le d e))
      \<and> (''Date'' \<in> set (columns df) \<and> sa = [] \<and> sc = [] \<longrightarrow>
           rows out =
             filter (\<lambda>r. \<exists>d. getitem (snd r) ''Date'' = Ts d \<and> date_le s d \<and> date_le d e)
               (rows df)))
   \<and> (load_dataset df0 = Inr df \<longrightarrow> (\<exists>out'. apply_filters df (Some s) (Some e) sa sc = Inr out'))"
proof -
  have 1: "columns out = columns df
      \<and> subseq (rows out) (rows df)
      \<and> (''Date'' \<in> set (columns df) \<longrightarrow>
           (\<forall>r \<in> set (rows out). \<exists>d. getitem (snd r) ''Date'' = Ts d \<and> date_le s d \<and> date_le d e))
      \<and> (''Date'' \<in> set (columns df) \<and> sa = [] \<and> sc = [] \<longrightarrow>
           rows out =
             filter (\<lambda>r. \<exists>d. getitem (snd r) ''Date'' = Ts d \<and> date_le s d \<and> date_le d e)
               (rows df))"
    if a: "apply_filters df (Some s) (Some e) sa sc = Inr out"
  proof -
    from a obtain f1 where d: "date_stage df (Some s) (Some e) = Inr f1"
      and o: "out = select_stage ''Content_Type'' sc (select_stage ''Author_Type'' sa f1)"
      by (rule apply_filters_Inr)
    let ?f2 = "select_stage ''Author_Type'' sa f1"
    note p1 = date_stage_Inr [OF d]
    note p2 = select_stage_props [of "''Author_Type''" sa f1]
    note p3 = select_stage_props [of "''Content_Type''" sc ?f2]
    have c: "columns out = columns df"
      using p1 p2 p3 o by simp
    have q: "subseq (rows out) (rows f1)"
      using p2 p3 o by (blast intro: subseq_order.order_trans)
    with p1 have u: "subseq (rows out) (rows df)"
      by (blast intro: subseq_order.order_trans)
    have r: "\<forall>r \<in> set (rows out). \<exists>d. getitem (snd r) ''Date'' = Ts d \<and> date_le s d \<and> date_le d e"
      if "''Date'' \<in> set (columns df)"
    proof
      fix r assume "r \<in> set (rows out)"
      with q have "r \<in> set (rows f1)" by (blast dest: subseq_set)
      then show "\<exists>d. getitem (snd r) ''Date'' = Ts d \<and> date_le s d \<and> date_le d e"
        unfolding date_stage_range [OF d that] by simp
    qed
    have x: "rows out =
             filter (\<lambda>r. \<exists>d. getitem (snd r) ''Date'' = Ts d \<and> date_le s d \<and> date_le d e)
               (rows df)"
      if "''Date'' \<in> set (columns df) \<and> sa = [] \<and> sc = []"
      using that o date_stage_range [OF d] by simp
    from c u r x show ?thesis by blast
  qed
  have 2: "\<exists>out'. apply_filters df (Some s) (Some e) sa sc = Inr out'"
    if "load_dataset df0 = Inr df"
    by (rule apply_filters_after_load_dataset [OF that])
  from 1 2 show ?thesis by blast
qed

text \<open>
  Witness for C5: of the cleaned example only the post of 1 February 2023 lies between
  1 January and 1 February 2023; the post without a date is not returned.
\<close>

theorem date_range_filter_witness:
  "load_dataset posts = Inr posts_clean
   \<and> apply_filters posts_clean (Some (2023, 1, 1)) (Some (2023, 2, 1)) [] [] = Inr february_posts
   \<and> column posts_clean ''Date'' = [Ts (2023, 2, 1), NaN, Ts (2023, 3, 15)]
   \<and> column february_posts ''Date'' = [Ts (2023, 2, 1)]
   \<and> subseq (rows february_posts) (rows posts_clean)
   \<and> columns february_posts = columns posts_clean"
proof -
  have h: "load_dataset posts = Inr posts_clean" by (rule load_dataset_posts)
  have a: "apply_filters posts_clean (Some (2023, 1, 1)) (Some (2023, 2, 1)) [] []
             = Inr february_posts"
    by code_simp
  have c: "column posts_clean ''Date'' = [Ts (2023, 2, 1), NaN, Ts (2023, 3, 15)]"
    by (simp add: posts_clean_def column_def getitem_def)
  have d: "column february_posts ''Date'' = [Ts (2023, 2, 1)]"
    by (simp add: february_posts_def column_def getitem_def)
  note w = date_range_filter [where df = posts_clean and s = "(2023, 1, 1)" and e = "(2023, 2, 1)"
      and sa = "[]" and sc = "[]" and out = february_posts, THEN conjunct1, rule_format, OF a]
  from w have u: "subseq (rows february_posts) (rows posts_clean)" by (elim conjE)
  from w have v: "columns february_posts = columns posts_clean" by (elim conjE)
  show ?thesis by (intro conjI h a c d u v)
qed

text \<open>
  Claim C8. If the grouped reduction returns a result, its keys are distinct, a key is in
  the result exactly when it has no missing component and is the key of at least one row of
  the frame, and the value listed with a key is the reduction over the rows of that key, of
  which there is at least one. So a key without rows has no entry at all.
\<close>

theorem groups_have_rows:
  assumes "groupby_agg df keys metric fn = Inr res"
  shows "distinct (map fst res)
       \<and> (\<forall>k. k \<in> set (map fst res) \<longleftrightarrow>
             NaN \<notin> set k \<and> (\<exists>r \<in> set (rows df). group_key keys (snd r) = k))
       \<and> (\<forall>k v. (k, v) \<in> set res \<longrightarrow>
             group_values df keys metric k \<noteq> []
             \<and> v = reduce fn (numbers (group_values df keys metric k)))"
proof -
  note r = groupby_agg_Inr [OF assms]
  have m: "map fst res = group_keys df keys"
    unfolding r by (simp add: o_def)
  have 1: "distinct (map fst res)"
    unfolding m by (rule distinct_group_keys)
  have 2: "\<forall>k. k \<in> set (map fst res) \<longleftrightarrow>
             NaN \<notin> set k \<and> (\<exists>r \<in> set (rows df). group_key keys (snd r) = k)"
    unfolding m set_group_keys by simp
  have 3: "group_values df keys metric k \<noteq> []
             \<and> v = reduce fn (numbers (group_values df keys metric k))"
    if "(k, v) \<in> set res" for k v
  proof -
    from that have k: "k \<in> set (group_keys df keys)"
      and v: "v = reduce fn (numbers (group_values df keys metric k))"
      unfolding r by auto
    from k obtain r where "r \<in> set (rows df)" and "group_key keys (snd r) = k"
      unfolding set_group_keys by blast
    then have "filter (\<lambda>r. group_key keys (snd r) = k) (rows df) \<noteq> []"
      by (auto simp: filter_empty_conv)
    then have "group_values df keys metric k \<noteq> []"
      by (simp add: group_values_def)
    with v show ?thesis by simp
  qed
  from 1 2 3 show ?thesis by blast
qed

text \<open>
  Witness for C8: the cleaned example has the groups Ai, Human and Nan; after filtering on
  the content type Video only a Human post is left, and the result has the single entry
  Human: there is no entry for Ai.
\<close>

theorem groups_have_rows_witness:
  "apply_filters posts_clean None None [] [Str ''Video''] = Inr human_posts
   \<and> groupby_agg posts_clean [''Author_Type''] ''Engagement_Score'' Mean
       = Inr [([Str ''Ai''], Some 17), ([Str ''Human''], Some 5), ([Str ''Nan''], Some 1)]
   \<and> groupby_agg human_posts [''Author_Type''] ''Engagement_Score'' Mean
       = Inr [([Str ''Human''], Some 5)]
   \<and> [Str ''Ai''] \<notin> set (map fst [([Str ''Human''], Some (5 :: rat))])"
proof -
  have f: "apply_filters posts_clean None None [] [Str ''Video''] = Inr human_posts"
    by code_simp
  have g: "groupby_agg posts_clean [''Author_Type''] ''Engagement_Score'' Mean
       = Inr [([Str ''Ai''], Some 17), ([Str ''Human''], Some 5), ([Str ''Nan''], Some 1)]"
    by code_simp
  have h: "groupby_agg human_posts [''Author_Type''] ''Engagement_Score'' Mean
       = Inr [([Str ''Human''], Some 5)]"
    by code_simp
  have n: "\<not> (\<exists>r \<in> set (rows human_posts). group_key [''Author_Type''] (snd r) = [Str ''Ai''])"
    by (simp add: human_posts_def group_key_def getitem_def)
  note w = groups_have_rows [OF h, THEN conjunct2, THEN conjunct1, rule_format, of "[Str ''Ai'']"]
  with n have "[Str ''Ai''] \<notin> set (map fst [([Str ''Human''], Some (5 :: rat))])"
    by blast
  with f g h show ?thesis by (intro conjI)
qed

end
